theory Spec2Isabelle
  imports Main
begin

section \<open>The generic provider of package giu\<close>

text \<open>
  \<^verbatim>\<open>GiuProvider[T]\<close> holds a default value \<^verbatim>\<open>d\<close> of type \<^verbatim>\<open>T\<close> and a Go map
  \<^verbatim>\<open>container\<close> from names to values. The type parameter \<^verbatim>\<open>T\<close> is the type variable
  \<open>'a\<close>; the Go map is a partial function on strings. The \<^verbatim>\<open>sync.RWMutex\<close> field
  has no counterpart: every method is modelled as one atomic step from state to state,
  which is what holding the lock for the whole method body gives a sequential caller.
\<close>

record 'a GiuProvider =
  d :: 'a
  container :: "string \<rightharpoonup> 'a"

subsection \<open>Ranging over a Go map\<close>

text \<open>
  \<^verbatim>\<open>for k, v := range m\<close> visits every entry of \<^verbatim>\<open>m\<close> once, in an order the language
  leaves open. The order is therefore an argument of every function that ranges over a
  map: a list \<open>ks\<close> of keys, and \<open>range_entries m ks\<close> is the sequence of entries the loop
  body sees. \<open>visits m ks\<close> says that \<open>ks\<close> is a possible order for \<open>m\<close>: each key of
  \<open>m\<close>, once.
\<close>

fun range_entries :: "(string \<rightharpoonup> 'a) \<Rightarrow> string list \<Rightarrow> (string \<times> 'a) list" where
  "range_entries m [] = []"
| "range_entries m (k # ks) =
     (case m k of
        None \<Rightarrow> range_entries m ks
      | Some v \<Rightarrow> (k, v) # range_entries m ks)"

definition visits :: "(string \<rightharpoonup> 'a) \<Rightarrow> string list \<Rightarrow> bool" where
  "visits m ks \<longleftrightarrow> distinct ks \<and> set ks = dom m"

subsection \<open>Add, Get, Default, SetDefault\<close>

text \<open>
  \<^verbatim>\<open>Add(name string, d T, isDefault ...bool)\<close>: the variadic flag is a list of
  booleans. The two tests and the store are in the order of the source.
\<close>

definition Add :: "'a GiuProvider \<Rightarrow> string \<Rightarrow> 'a \<Rightarrow> bool list \<Rightarrow> 'a GiuProvider" where
  "Add p name v isDefault =
     (let p1 = (if length isDefault > 0 \<and> isDefault ! 0 then p\<lparr>d := v\<rparr> else p);
          p2 = (if container p1 = Map.empty then p1\<lparr>d := v\<rparr> else p1)
      in p2\<lparr>container := (container p2)(name \<mapsto> v)\<rparr>)"

text \<open>
  \<^verbatim>\<open>Get\<close> returns the stored value and \<^verbatim>\<open>true\<close>, or the zero value of \<^verbatim>\<open>T\<close> and
  \<^verbatim>\<open>false\<close>. The zero value of the type parameter is the argument \<open>zero\<close>.
\<close>

definition Get :: "'a \<Rightarrow> 'a GiuProvider \<Rightarrow> string \<Rightarrow> 'a \<times> bool" where
  "Get zero p name = (case container p name of Some v \<Rightarrow> (v, True) | None \<Rightarrow> (zero, False))"

definition Default :: "'a GiuProvider \<Rightarrow> 'a" where
  "Default p = d p"

text \<open>\<^verbatim>\<open>SetDefault\<close> returns its boolean together with the state it leaves.\<close>

definition SetDefault :: "'a GiuProvider \<Rightarrow> string \<Rightarrow> bool \<times> 'a GiuProvider" where
  "SetDefault p name =
     (case container p name of
        Some v \<Rightarrow> (True, p\<lparr>d := v\<rparr>)
      | None \<Rightarrow> (False, p))"

subsection \<open>Constructors from existing maps\<close>

text \<open>
  \<^verbatim>\<open>NewGiuProvider(items ...map[string]T)\<close>: the variadic argument is a list of maps,
  each with the order in which it would be ranged over. The fresh provider has the zero
  value of \<^verbatim>\<open>T\<close> in \<^verbatim>\<open>d\<close> and an empty container; the loop calls \<^verbatim>\<open>g.Add(k, v)\<close>
  with no flag.
\<close>

fun add_all :: "'a GiuProvider \<Rightarrow> (string \<times> 'a) list \<Rightarrow> 'a GiuProvider" where
  "add_all g [] = g"
| "add_all g ((k, v) # kvs) = add_all (Add g k v []) kvs"

definition NewGiuProvider ::
  "'a \<Rightarrow> ((string \<rightharpoonup> 'a) \<times> string list) list \<Rightarrow> 'a GiuProvider" where
  "NewGiuProvider zero items =
     (let g = \<lparr>d = zero, container = Map.empty\<rparr>
      in if length items > 0
         then add_all g (range_entries (fst (items ! 0)) (snd (items ! 0)))
         else g)"

definition NewProvider ::
  "'a \<Rightarrow> ((string \<rightharpoonup> 'a) \<times> string list) list \<Rightarrow> 'a GiuProvider" where
  "NewProvider zero items = NewGiuProvider zero items"

text \<open>
  The typed providers embed a \<^verbatim>\<open>*GiuProvider\<close>; each is a wrapper around the generic
  provider.
\<close>

datatype 'a gormProvider = gormProvider (gorm_giu: "'a GiuProvider")

datatype 'a zapProvider = zapProvider (zap_giu: "'a GiuProvider")

datatype 'a redisProvider = redisProvider (redis_giu: "'a GiuProvider")

definition newGormProvider ::
  "'a \<Rightarrow> ((string \<rightharpoonup> 'a) \<times> string list) list \<Rightarrow> 'a gormProvider" where
  "newGormProvider zero connections = gormProvider (NewGiuProvider zero connections)"

definition NewGormProvider ::
  "'a \<Rightarrow> ((string \<rightharpoonup> 'a) \<times> string list) list \<Rightarrow> 'a gormProvider" where
  "NewGormProvider zero connections = newGormProvider zero connections"

definition NewZapProvider ::
  "'a \<Rightarrow> ((string \<rightharpoonup> 'a) \<times> string list) list \<Rightarrow> 'a zapProvider" where
  "NewZapProvider zero loggers = zapProvider (NewGiuProvider zero loggers)"

definition NewRedisProvider ::
  "'a \<Rightarrow> ((string \<rightharpoonup> 'a) \<times> string list) list \<Rightarrow> 'a redisProvider" where
  "NewRedisProvider zero clients = redisProvider (NewGiuProvider zero clients)"

subsection \<open>Constructors from parameters, with a factory that can fail\<close>

text \<open>
  \<^verbatim>\<open>newFunc func(U) (T, error)\<close> is a function into a sum: \<open>Inl err\<close> for a non-nil
  error, \<open>Inr item\<close> otherwise (the item returned beside a non-nil error is never read).
  The outcome of the factory is taken to be determined by its argument. The result
  \<^verbatim>\<open>(*GiuProvider[T], error)\<close> is a sum as well: \<open>Inl err\<close> is \<^verbatim>\<open>return nil, err\<close>.

  \<open>build_items\<close> is the loop over \<^verbatim>\<open>params\<close> that fills \<^verbatim>\<open>itemMap\<close>.
\<close>

fun build_items ::
  "('u \<Rightarrow> 'e + 'a) \<Rightarrow> (string \<times> 'u) list \<Rightarrow> (string \<rightharpoonup> 'a) \<Rightarrow> 'e + (string \<rightharpoonup> 'a)" where
  "build_items newFunc [] itemMap = Inr itemMap"
| "build_items newFunc ((k, v) # rest) itemMap =
     (case newFunc v of
        Inl err \<Rightarrow> Inl err
      | Inr item \<Rightarrow> build_items newFunc rest (itemMap(k \<mapsto> item)))"

text \<open>
  \<open>pks\<close> is the order in which the loop ranges over \<^verbatim>\<open>params\<close>, \<open>iks\<close> the order in
  which \<^verbatim>\<open>NewGiuProvider\<close> then ranges over \<^verbatim>\<open>itemMap\<close>.
\<close>

definition NewGiuProviderFromParamsError ::
  "'a \<Rightarrow> ('u \<Rightarrow> 'e + 'a) \<Rightarrow> (string \<rightharpoonup> 'u) \<Rightarrow> string list \<Rightarrow> string list
     \<Rightarrow> 'e + 'a GiuProvider" where
  "NewGiuProviderFromParamsError zero newFunc params pks iks =
     (case build_items newFunc (range_entries params pks) Map.empty of
        Inl err \<Rightarrow> Inl err
      | Inr itemMap \<Rightarrow> Inr (NewGiuProvider zero [(itemMap, iks)]))"

text \<open>The variant with a logger hands the same \<^verbatim>\<open>logger\<close> to every call of the factory.\<close>

definition NewGiuProviderWithLoggerFromParamsError ::
  "'a \<Rightarrow> ('u \<Rightarrow> 'l \<Rightarrow> 'e + 'a) \<Rightarrow> (string \<rightharpoonup> 'u) \<Rightarrow> 'l \<Rightarrow> string list \<Rightarrow> string list
     \<Rightarrow> 'e + 'a GiuProvider" where
  "NewGiuProviderWithLoggerFromParamsError zero newFunc params logger pks iks =
     (case build_items (\<lambda>v. newFunc v logger) (range_entries params pks) Map.empty of
        Inl err \<Rightarrow> Inl err
      | Inr itemMap \<Rightarrow> Inr (NewGiuProvider zero [(itemMap, iks)]))"

text \<open>
  \<^verbatim>\<open>NewGormProviderFromParams\<close> ranges over a map of pointers and dereferences each
  (\<^verbatim>\<open>NewGorm(*v, configParams)\<close>): a value of the map is \<open>None\<close> for a nil pointer, and
  dereferencing it panics. \<^verbatim>\<open>NewGorm\<close> opens a connection through the gorm library and
  is an argument of the model.
\<close>

datatype 'e failure = NilDereference | Returned 'e

fun gorm_connections ::
  "('u \<Rightarrow> 'c \<Rightarrow> 'e + 'a) \<Rightarrow> 'c \<Rightarrow> (string \<times> 'u option) list \<Rightarrow> (string \<rightharpoonup> 'a)
     \<Rightarrow> 'e failure + (string \<rightharpoonup> 'a)" where
  "gorm_connections NewGorm configParams [] connections = Inr connections"
| "gorm_connections NewGorm configParams ((k, v) # rest) connections =
     (case v of
        None \<Rightarrow> Inl NilDereference
      | Some params \<Rightarrow>
          (case NewGorm params configParams of
             Inl err \<Rightarrow> Inl (Returned err)
           | Inr conn \<Rightarrow> gorm_connections NewGorm configParams rest (connections(k \<mapsto> conn))))"

definition NewGormProviderFromParams ::
  "'a \<Rightarrow> ('u \<Rightarrow> 'c \<Rightarrow> 'e + 'a) \<Rightarrow> 'c \<Rightarrow> (string \<rightharpoonup> 'u option) \<Rightarrow> string list \<Rightarrow> string list
     \<Rightarrow> 'e failure + 'a gormProvider" where
  "NewGormProviderFromParams zero NewGorm configParams connectionParams pks iks =
     (case gorm_connections NewGorm configParams (range_entries connectionParams pks) Map.empty of
        Inl err \<Rightarrow> Inl err
      | Inr connections \<Rightarrow> Inr (NewGormProvider zero [(connections, iks)]))"

subsection \<open>Shutdown of the typed providers\<close>

text \<open>
  Closing an instance is a call into the gorm, zap or redis library: the operation is an
  argument of the model, \<open>None\<close> for a nil error, and its outcome is taken to be determined
  by the instance. Besides the error, each \<^verbatim>\<open>Shutdown\<close> returns the list of instances on
  which the operation was called, in the order of the calls. The instances are values of
  the libraries' types; a nil instance, on which the library call itself would panic, is
  not among them.

  \<open>close_each\<close> is the loop of \<^verbatim>\<open>zapProvider.Shutdown\<close> (with \<^verbatim>\<open>v.Sync()\<close>) and of
  \<^verbatim>\<open>redisProvider.Shutdown\<close> (with \<^verbatim>\<open>v.Close()\<close>), which are the same but for the
  method called.
\<close>

fun close_each :: "('a \<Rightarrow> 'e option) \<Rightarrow> 'a list \<Rightarrow> 'a list \<times> 'e option" where
  "close_each close [] = ([], None)"
| "close_each close (v # vs) =
     (case close v of
        Some err \<Rightarrow> ([v], Some err)
      | None \<Rightarrow> (case close_each close vs of (called, r) \<Rightarrow> (v # called, r)))"

text \<open>
  \<^verbatim>\<open>gormProvider.Shutdown\<close> first asks the instance for its \<^verbatim>\<open>*sql.DB\<close> (\<^verbatim>\<open>v.DB()\<close>) and
  closes it only when that call returned no error; otherwise the loop goes on to the next
  instance.
\<close>

fun gorm_close_each ::
  "('a \<Rightarrow> 'e + 's) \<Rightarrow> ('s \<Rightarrow> 'e option) \<Rightarrow> 'a list \<Rightarrow> 's list \<times> 'e option" where
  "gorm_close_each DB Close [] = ([], None)"
| "gorm_close_each DB Close (v # vs) =
     (case DB v of
        Inr db \<Rightarrow>
          (case Close db of
             Some err \<Rightarrow> ([db], Some err)
           | None \<Rightarrow> (case gorm_close_each DB Close vs of (called, r) \<Rightarrow> (db # called, r)))
      | Inl _ \<Rightarrow> gorm_close_each DB Close vs)"

text \<open>The values a loop \<^verbatim>\<open>for _, v := range m\<close> sees.\<close>

definition range_values :: "(string \<rightharpoonup> 'a) \<Rightarrow> string list \<Rightarrow> 'a list" where
  "range_values m ks = map snd (range_entries m ks)"

definition gormProvider_Shutdown ::
  "('a \<Rightarrow> 'e + 's) \<Rightarrow> ('s \<Rightarrow> 'e option) \<Rightarrow> string list \<Rightarrow> 'a gormProvider
     \<Rightarrow> 's list \<times> 'e option" where
  "gormProvider_Shutdown DB Close ks gp =
     gorm_close_each DB Close (range_values (container (gorm_giu gp)) ks)"

definition zapProvider_Shutdown ::
  "('a \<Rightarrow> 'e option) \<Rightarrow> string list \<Rightarrow> 'a zapProvider \<Rightarrow> 'a list \<times> 'e option" where
  "zapProvider_Shutdown Sync ks zp = close_each Sync (range_values (container (zap_giu zp)) ks)"

definition redisProvider_Shutdown ::
  "('a \<Rightarrow> 'e option) \<Rightarrow> string list \<Rightarrow> 'a redisProvider \<Rightarrow> 'a list \<times> 'e option" where
  "redisProvider_Shutdown Close ks rp =
     close_each Close (range_values (container (redis_giu rp)) ks)"

text \<open>The \<^verbatim>\<open>*sql.DB\<close> handles of the instances whose \<^verbatim>\<open>DB()\<close> call succeeds.\<close>

fun sql_handles :: "('a \<Rightarrow> 'e + 's) \<Rightarrow> 'a list \<Rightarrow> 's list" where
  "sql_handles DB [] = []"
| "sql_handles DB (v # vs) =
     (case DB v of Inr db \<Rightarrow> db # sql_handles DB vs | Inl _ \<Rightarrow> sql_handles DB vs)"

subsection \<open>Vocabulary of the properties\<close>

text \<open>The flag of an \<^verbatim>\<open>Add\<close> call was passed, and passed as true.\<close>

definition makeDefault :: "bool list \<Rightarrow> bool" where
  "makeDefault isDefault \<longleftrightarrow> length isDefault > 0 \<and> isDefault ! 0"

text \<open>A sequence of calls of the two mutating methods, and the state it leads to.\<close>

datatype 'a call = CallAdd string 'a "bool list" | CallSetDefault string

fun exec :: "'a GiuProvider \<Rightarrow> 'a call \<Rightarrow> 'a GiuProvider" where
  "exec p (CallAdd name v isDefault) = Add p name v isDefault"
| "exec p (CallSetDefault name) = snd (SetDefault p name)"

fun run :: "'a GiuProvider \<Rightarrow> 'a call list \<Rightarrow> 'a GiuProvider" where
  "run p [] = p"
| "run p (c # cs) = run (exec p c) cs"

text \<open>Invariant I1: the default of a non-empty provider is one of its stored values.\<close>

definition I1 :: "'a GiuProvider \<Rightarrow> bool" where
  "I1 p \<longleftrightarrow> (container p \<noteq> Map.empty \<longrightarrow> Default p \<in> ran (container p))"

text \<open>
  A call keeps the default stored when it is not an \<^verbatim>\<open>Add\<close> without the flag onto a
  name whose stored value is the current default; \<open>keeps_all\<close> asks this of every call
  of a sequence, each in the state it is made in.
\<close>

fun keeps_default :: "'a GiuProvider \<Rightarrow> 'a call \<Rightarrow> bool" where
  "keeps_default p (CallAdd name v isDefault) =
     (makeDefault isDefault \<or> container p name \<noteq> Some (Default p))"
| "keeps_default p (CallSetDefault name) = True"

fun keeps_all :: "'a GiuProvider \<Rightarrow> 'a call list \<Rightarrow> bool" where
  "keeps_all p [] = True"
| "keeps_all p (c # cs) = (keeps_default p c \<and> keeps_all (exec p c) cs)"

text \<open>An \<^verbatim>\<open>Add\<close> call that does not ask to become the default, and the name of a call.\<close>

fun plain_add :: "'a call \<Rightarrow> bool" where
  "plain_add (CallAdd name v isDefault) = (\<not> makeDefault isDefault)"
| "plain_add (CallSetDefault name) = False"

fun call_name :: "'a call \<Rightarrow> string" where
  "call_name (CallAdd name v isDefault) = name"
| "call_name (CallSetDefault name) = name"

section \<open>Basic facts about Add\<close>

lemma container_Add: "container (Add p name v fl) = (container p)(name \<mapsto> v)"
  by (simp add: Add_def Let_def)

lemma d_Add:
  "d (Add p name v fl) = (if makeDefault fl \<or> container p = Map.empty then v else d p)"
  by (simp add: Add_def Let_def makeDefault_def)

lemma container_Add_nonempty: "container (Add p name v fl) \<noteq> Map.empty"
  by (simp add: container_Add)

lemma NewGiuProvider_Nil: "NewGiuProvider zero [] = \<lparr>d = zero, container = Map.empty\<rparr>"
  by (simp add: NewGiuProvider_def)

lemma Get_Add_same: "Get zero (Add p name v fl) name = (v, True)"
  by (simp add: Get_def container_Add)

lemma d_Add_plain:
  "container p \<noteq> Map.empty \<Longrightarrow> \<not> makeDefault fl \<Longrightarrow> d (Add p name v fl) = d p"
  by (simp add: d_Add)

lemma exec_plain_add_d:
  "plain_add c \<Longrightarrow> container p \<noteq> Map.empty \<Longrightarrow> d (exec p c) = d p"
  by (cases c) (simp_all add: d_Add)

lemma exec_plain_add_nonempty:
  "plain_add c \<Longrightarrow> container (exec p c) \<noteq> Map.empty"
  by (cases c) (simp_all add: container_Add)

lemma run_plain_adds_d:
  "list_all plain_add cs \<Longrightarrow> container p \<noteq> Map.empty \<Longrightarrow> d (run p cs) = d p"
proof (induction cs arbitrary: p)
  case Nil
  then show ?case by simp
next
  case (Cons c cs)
  from Cons.prems have c: "plain_add c" and cs: "list_all plain_add cs" by simp_all
  have "d (run (exec p c) cs) = d (exec p c)"
    using Cons.IH [OF cs exec_plain_add_nonempty [OF c]] .
  also have "\<dots> = d p"
    using exec_plain_add_d [OF c Cons.prems(2)] .
  finally show ?case by simp
qed

lemma run_plain_adds_nonempty:
  "container p \<noteq> Map.empty \<Longrightarrow> list_all plain_add cs \<Longrightarrow>
   container (run p cs) \<noteq> Map.empty"
  by (induction cs arbitrary: p) (simp_all add: exec_plain_add_nonempty)

section \<open>Facts about the constructors\<close>

lemma container_add_all: "container (add_all g kvs) = container g ++ map_of (rev kvs)"
proof (induction kvs arbitrary: g)
  case Nil
  then show ?case by simp
next
  case (Cons kv kvs)
  obtain k v where kv: "kv = (k, v)" by (cases kv)
  have "container (add_all (Add g k v []) kvs) = container (Add g k v []) ++ map_of (rev kvs)"
    by (rule Cons.IH)
  then have "container (add_all g (kv # kvs)) = (container g)(k \<mapsto> v) ++ map_of (rev kvs)"
    by (simp only: kv add_all.simps container_Add)
  also have "\<dots> = container g ++ ([k \<mapsto> v] ++ map_of (rev kvs))"
    by (rule ext) (simp add: map_add_def split: option.splits)
  finally show ?case by (simp add: kv)
qed

lemma range_entries_visits:
  "set ks \<subseteq> dom m \<Longrightarrow> range_entries m ks = map (\<lambda>k. (k, the (m k))) ks"
  by (induction ks) auto

lemma map_of_range_entries:
  "map_of (rev (range_entries m ks)) k = (if k \<in> set ks then m k else None)"
  by (induction ks) (auto simp: map_add_def split: option.splits if_splits)

lemma map_of_range_entries_visits:
  assumes "visits m ks"
  shows "map_of (rev (range_entries m ks)) = m"
proof (rule ext)
  fix k
  show "map_of (rev (range_entries m ks)) k = m k"
    using assms by (auto simp: map_of_range_entries visits_def)
qed

lemma d_add_all_nonempty: "container g \<noteq> Map.empty \<Longrightarrow> d (add_all g kvs) = d g"
proof (induction kvs arbitrary: g)
  case Nil
  then show ?case by simp
next
  case (Cons kv kvs)
  obtain k v where kv: "kv = (k, v)" by (cases kv)
  have "d (add_all (Add g k v []) kvs) = d (Add g k v [])"
    by (rule Cons.IH) (rule container_Add_nonempty)
  then show ?case
    using Cons.prems by (simp add: kv d_Add makeDefault_def)
qed

lemma d_add_all_first:
  "container g = Map.empty \<Longrightarrow> d (add_all g ((k, v) # kvs)) = v"
  by (simp add: d_add_all_nonempty container_Add_nonempty d_Add)

lemma NewGiuProvider_Cons:
  "NewGiuProvider zero ((m, ks) # rest)
     = add_all \<lparr>d = zero, container = Map.empty\<rparr> (range_entries m ks)"
  by (simp add: NewGiuProvider_def)

lemma container_NewGiuProvider:
  "visits m ks \<Longrightarrow> container (NewGiuProvider zero ((m, ks) # rest)) = m"
  by (simp add: NewGiuProvider_Cons container_add_all map_of_range_entries_visits)

lemma d_NewGiuProvider_first:
  assumes "m k = Some v"
  shows "d (NewGiuProvider zero ((m, k # ks) # rest)) = v"
  using assms
  by (simp add: NewGiuProvider_Cons d_add_all_nonempty container_Add_nonempty d_Add)

lemma d_NewGiuProvider_empty:
  "d (NewGiuProvider zero ((m, []) # rest)) = zero"
  by (simp add: NewGiuProvider_Cons)

section \<open>The default rule of Add\<close>

text \<open>
  Claim C2, as amended. After \<^verbatim>\<open>Add(name, v, isDefault...)\<close> the default is \<open>v\<close> when the
  flag was passed as true or the container was empty before the call, and otherwise it is
  the default held before the call. Hence \<^verbatim>\<open>Default()\<close> returns \<open>v\<close> after the call
  if and only if the flag was true, or the container was empty, or \<open>v\<close> already was the
  default.
\<close>

theorem Add_default_rule:
  "Default (Add p name v isDefault) =
     (if makeDefault isDefault \<or> container p = Map.empty then v else Default p)
   \<and> (Default (Add p name v isDefault) = v
        \<longleftrightarrow> makeDefault isDefault \<or> container p = Map.empty \<or> Default p = v)"
  by (simp add: Default_def d_Add)

text \<open>
  The rule at work: an \<^verbatim>\<open>Add\<close> with the flag onto a non-empty provider, one without it,
  and a first \<^verbatim>\<open>Add\<close> whose flag is false.
\<close>

theorem Add_default_rule_witness:
  "Default (Add (Add (NewGiuProvider (0::nat) []) ''a'' 1 []) ''b'' 2 [True]) = 2
   \<and> Default (Add (Add (NewGiuProvider (0::nat) []) ''a'' 1 []) ''b'' 2 [False]) = 1
   \<and> Default (Add (NewGiuProvider (0::nat) []) ''a'' 1 [False]) = 1"
  using Add_default_rule [of "Add (NewGiuProvider (0::nat) []) ''a'' 1 []" "''b''" 2 "[True]"]
    Add_default_rule [of "Add (NewGiuProvider (0::nat) []) ''a'' 1 []" "''b''" 2 "[False]"]
    Add_default_rule [of "NewGiuProvider (0::nat) []" "''a''" 1 "[False]"]
  by (simp add: makeDefault_def container_Add d_Add NewGiuProvider_Nil Default_def)

text \<open>
  Without the third alternative the equivalence fails: \<^verbatim>\<open>Add("a", 1)\<close> and then
  \<^verbatim>\<open>Add("b", 1, false)\<close> leaves \<^verbatim>\<open>Default()\<close> equal to the value just added, although the
  flag was false and the container was not empty.
\<close>

theorem Add_default_rule_counterexample:
  "Default (Add (Add (NewGiuProvider (0::nat) []) ''a'' 1 []) ''b'' 1 [False]) = 1
   \<and> \<not> (makeDefault [False] \<or> container (Add (NewGiuProvider (0::nat) []) ''a'' 1 []) = Map.empty)"
  by (simp add: Default_def d_Add container_Add makeDefault_def NewGiuProvider_Nil)

section \<open>The contract of SetDefault\<close>

text \<open>
  Claim C3. \<^verbatim>\<open>SetDefault(name)\<close> returns true, with \<^verbatim>\<open>Default()\<close> afterwards the value stored
  under \<open>name\<close>, if and only if \<open>name\<close> is a key of the container at the call; for an absent
  name it returns false and the whole state is as before. The container is never changed.
  The boolean is the only outcome besides the state: the function is total.
\<close>

theorem SetDefault_contract:
  "(fst (SetDefault p name) \<and> container p name = Some (Default (snd (SetDefault p name)))
      \<longleftrightarrow> name \<in> dom (container p))
   \<and> (name \<notin> dom (container p) \<longrightarrow> SetDefault p name = (False, p))
   \<and> container (snd (SetDefault p name)) = container p"
  by (auto simp: SetDefault_def Default_def split: option.splits)

text \<open>A present name and an absent one.\<close>

theorem SetDefault_contract_witness:
  "fst (SetDefault (Add (Add (NewGiuProvider (0::nat) []) ''a'' 1 []) ''b'' 2 []) ''b'')
   \<and> Default (snd (SetDefault (Add (Add (NewGiuProvider (0::nat) []) ''a'' 1 []) ''b'' 2 []) ''b'')) = 2
   \<and> ''c'' \<notin> dom (container (Add (NewGiuProvider (0::nat) []) ''a'' 1 []))
   \<and> SetDefault (Add (NewGiuProvider (0::nat) []) ''a'' 1 []) ''c''
       = (False, Add (NewGiuProvider (0::nat) []) ''a'' 1 [])"
  using SetDefault_contract [of "Add (Add (NewGiuProvider (0::nat) []) ''a'' 1 []) ''b'' 2 []" "''b''"]
    SetDefault_contract [of "Add (NewGiuProvider (0::nat) []) ''a'' 1 []" "''c''"]
  by (simp add: container_Add NewGiuProvider_Nil Default_def)

section \<open>Overwriting a name\<close>

text \<open>
  Claim C8. After \<^verbatim>\<open>Add(name, v1)\<close>, any number of \<^verbatim>\<open>Add\<close> calls that do not ask to become
  the default, and \<^verbatim>\<open>Add(name, v2)\<close> without a true flag, \<^verbatim>\<open>Get(name)\<close> returns
  \<open>(v2, true)\<close>; and if \<open>v1\<close> was the default after the first call, it still is. \<^verbatim>\<open>Add\<close>
  has no error outcome: overwriting is an ordinary store.
\<close>

theorem overwrite_semantics:
  assumes "list_all plain_add between" and "\<not> makeDefault isDefault2"
  shows "Get zero (Add (run (Add p name v1 isDefault1) between) name v2 isDefault2) name = (v2, True)
    \<and> (Default (Add p name v1 isDefault1) = v1
         \<longrightarrow> Default (Add (run (Add p name v1 isDefault1) between) name v2 isDefault2) = v1)"
proof -
  have ne: "container (run (Add p name v1 isDefault1) between) \<noteq> Map.empty"
    using run_plain_adds_nonempty [OF container_Add_nonempty assms(1)] .
  have "d (Add (run (Add p name v1 isDefault1) between) name v2 isDefault2)
          = d (run (Add p name v1 isDefault1) between)"
    using d_Add_plain [OF ne assms(2)] .
  also have "\<dots> = d (Add p name v1 isDefault1)"
    using run_plain_adds_d [OF assms(1) container_Add_nonempty] .
  finally show ?thesis
    by (simp add: Default_def Get_Add_same)
qed

text \<open>Overwriting \<^verbatim>\<open>"a"\<close>, first added with 1, by 2: the lookup gives 2, the default stays 1.\<close>

theorem overwrite_semantics_witness:
  "Get (0::nat) (Add (run (Add (NewGiuProvider 0 []) ''a'' 1 []) [CallAdd ''b'' 5 [False]]) ''a'' 2 []) ''a'' = (2, True)
   \<and> Default (Add (run (Add (NewGiuProvider 0 []) ''a'' 1 []) [CallAdd ''b'' 5 [False]]) ''a'' 2 []) = (1::nat)"
proof -
  have a: "list_all plain_add [CallAdd ''b'' (5::nat) [False]]"
    by (simp add: makeDefault_def)
  have b: "\<not> makeDefault []"
    by (simp add: makeDefault_def)
  have c: "Default (Add (NewGiuProvider (0::nat) []) ''a'' 1 []) = 1"
    by (simp add: Default_def d_Add NewGiuProvider_Nil)
  show ?thesis
    using overwrite_semantics [OF a b, of "0::nat" "NewGiuProvider 0 []" "''a''" 1 "[]" 2] c
    by simp
qed

section \<open>Variadic constructors\<close>

text \<open>
  Claim C9. \<^verbatim>\<open>NewProvider\<close>, \<^verbatim>\<open>NewGiuProvider\<close>, \<^verbatim>\<open>NewGormProvider\<close>, \<^verbatim>\<open>NewZapProvider\<close> and
  \<^verbatim>\<open>NewRedisProvider\<close> read only their first map. For each of the five: the result with
  further maps is the result with the first map alone; the container of the result is
  exactly the first map, so that no entry of a later map is stored; the default is one of
  the values of the first map (or the zero value when it is empty), so that no entry of a
  later map becomes the default; and with no map at all the provider is empty. The
  provider inside each typed result is the one \<^verbatim>\<open>NewGiuProvider\<close> makes from the same
  arguments.
\<close>

theorem constructors_use_first_map:
  "NewGiuProvider zero (x # rest) = NewGiuProvider zero [x]
   \<and> NewProvider zero (x # rest) = NewProvider zero [x]
   \<and> NewGormProvider zero (x # rest) = NewGormProvider zero [x]
   \<and> NewZapProvider zero (x # rest) = NewZapProvider zero [x]
   \<and> NewRedisProvider zero (x # rest) = NewRedisProvider zero [x]
   \<and> NewGiuProvider zero [] = \<lparr>d = zero, container = Map.empty\<rparr>
   \<and> NewProvider zero [] = \<lparr>d = zero, container = Map.empty\<rparr>
   \<and> NewGormProvider zero [] = gormProvider \<lparr>d = zero, container = Map.empty\<rparr>
   \<and> NewZapProvider zero [] = zapProvider \<lparr>d = zero, container = Map.empty\<rparr>
   \<and> NewRedisProvider zero [] = redisProvider \<lparr>d = zero, container = Map.empty\<rparr>
   \<and> (visits m ks \<longrightarrow>
        container (NewGiuProvider zero ((m, ks) # rest)) = m
        \<and> Default (NewGiuProvider zero ((m, ks) # rest)) \<in> insert zero (ran m)
        \<and> container (NewProvider zero ((m, ks) # rest)) = m
        \<and> Default (NewProvider zero ((m, ks) # rest)) \<in> insert zero (ran m)
        \<and> container (gorm_giu (NewGormProvider zero ((m, ks) # rest))) = m
        \<and> Default (gorm_giu (NewGormProvider zero ((m, ks) # rest))) \<in> insert zero (ran m)
        \<and> container (zap_giu (NewZapProvider zero ((m, ks) # rest))) = m
        \<and> Default (zap_giu (NewZapProvider zero ((m, ks) # rest))) \<in> insert zero (ran m)
        \<and> container (redis_giu (NewRedisProvider zero ((m, ks) # rest))) = m
        \<and> Default (redis_giu (NewRedisProvider zero ((m, ks) # rest)))
              \<in> insert zero (ran m))
   \<and> NewProvider zero items = NewGiuProvider zero items
   \<and> gorm_giu (NewGormProvider zero items) = NewGiuProvider zero items
   \<and> zap_giu (NewZapProvider zero items) = NewGiuProvider zero items
   \<and> redis_giu (NewRedisProvider zero items) = NewGiuProvider zero items"
proof -
  have eq: "NewGiuProvider zero (x # rest) = NewGiuProvider zero [x]"
    by (simp add: NewGiuProvider_def)
  have dflt: "Default (NewGiuProvider zero ((m, ks) # rest)) \<in> insert zero (ran m)"
    if "visits m ks"
  proof (cases ks)
    case Nil
    then show ?thesis by (simp add: Default_def d_NewGiuProvider_empty)
  next
    case (Cons k ks')
    with that have "k \<in> dom m" by (auto simp: visits_def)
    then obtain v where v: "m k = Some v" by blast
    then have "d (NewGiuProvider zero ((m, ks) # rest)) = v"
      unfolding Cons by (rule d_NewGiuProvider_first)
    with v show ?thesis by (auto simp: Default_def ran_def)
  qed
  show ?thesis
    using eq dflt
    by (simp add: NewProvider_def NewGormProvider_def newGormProvider_def NewZapProvider_def
        NewRedisProvider_def NewGiuProvider_Nil container_NewGiuProvider)
qed

text \<open>
  Two maps, for each of the five constructors: the container is the first map, the entry
  \<^verbatim>\<open>"b"\<close> of the second is not in it, and the default is the value of the first map.
\<close>

theorem constructors_use_first_map_witness:
  "visits [''a'' \<mapsto> (1::nat)] [''a'']
   \<and> NewGiuProvider (0::nat) [([''a'' \<mapsto> 1], [''a'']), ([''b'' \<mapsto> 2], [''b''])]
       = NewGiuProvider 0 [([''a'' \<mapsto> 1], [''a''])]
   \<and> container (NewGiuProvider (0::nat) [([''a'' \<mapsto> 1], [''a'']), ([''b'' \<mapsto> 2], [''b''])])
       = [''a'' \<mapsto> 1]
   \<and> container (NewProvider (0::nat) [([''a'' \<mapsto> 1], [''a'']), ([''b'' \<mapsto> 2], [''b''])])
       = [''a'' \<mapsto> 1]
   \<and> container (gorm_giu
         (NewGormProvider (0::nat) [([''a'' \<mapsto> 1], [''a'']), ([''b'' \<mapsto> 2], [''b''])]))
       = [''a'' \<mapsto> 1]
   \<and> container (zap_giu
         (NewZapProvider (0::nat) [([''a'' \<mapsto> 1], [''a'']), ([''b'' \<mapsto> 2], [''b''])]))
       = [''a'' \<mapsto> 1]
   \<and> container (redis_giu
         (NewRedisProvider (0::nat) [([''a'' \<mapsto> 1], [''a'']), ([''b'' \<mapsto> 2], [''b''])]))
       = [''a'' \<mapsto> 1]
   \<and> Default (zap_giu
         (NewZapProvider (0::nat) [([''a'' \<mapsto> 1], [''a'']), ([''b'' \<mapsto> 2], [''b''])]))
       \<in> {0, 1}"
proof -
  have v: "visits [''a'' \<mapsto> (1::nat)] [''a'']"
    by (simp add: visits_def)
  have r: "insert (0::nat) (ran [''a'' \<mapsto> (1::nat)]) = {0, 1}"
    by simp
  note t = constructors_use_first_map [where zero = "0::nat"
      and x = "([''a'' \<mapsto> 1], [''a''])" and rest = "[([''b'' \<mapsto> 2], [''b''])]"
      and m = "[''a'' \<mapsto> 1]" and ks = "[''a'']"]
  from t have e: "NewGiuProvider (0::nat) [([''a'' \<mapsto> 1], [''a'']), ([''b'' \<mapsto> 2], [''b''])]
       = NewGiuProvider 0 [([''a'' \<mapsto> 1], [''a''])]"
    by (rule conjunct1)
  from t v have c: "container (NewGiuProvider (0::nat) [([''a'' \<mapsto> 1], [''a'']), ([''b'' \<mapsto> 2], [''b''])])
       = [''a'' \<mapsto> 1]
   \<and> container (NewProvider (0::nat) [([''a'' \<mapsto> 1], [''a'']), ([''b'' \<mapsto> 2], [''b''])])
       = [''a'' \<mapsto> 1]
   \<and> container (gorm_giu
         (NewGormProvider (0::nat) [([''a'' \<mapsto> 1], [''a'']), ([''b'' \<mapsto> 2], [''b''])]))
       = [''a'' \<mapsto> 1]
   \<and> container (zap_giu
         (NewZapProvider (0::nat) [([''a'' \<mapsto> 1], [''a'']), ([''b'' \<mapsto> 2], [''b''])]))
       = [''a'' \<mapsto> 1]
   \<and> container (redis_giu
         (NewRedisProvider (0::nat) [([''a'' \<mapsto> 1], [''a'']), ([''b'' \<mapsto> 2], [''b''])]))
       = [''a'' \<mapsto> 1]
   \<and> Default (zap_giu
         (NewZapProvider (0::nat) [([''a'' \<mapsto> 1], [''a'']), ([''b'' \<mapsto> 2], [''b''])]))
       \<in> insert 0 (ran [''a'' \<mapsto> 1])"
    by blast
  from v e c show ?thesis
    unfolding r by blast
qed

section \<open>The default is a stored value\<close>

lemma I1_Add:
  assumes "I1 p" and "makeDefault fl \<or> container p name \<noteq> Some (Default p)"
  shows "I1 (Add p name v fl)"
proof (cases "makeDefault fl \<or> container p = Map.empty")
  case True
  then have "d (Add p name v fl) = v" by (simp add: d_Add)
  then show ?thesis
    by (auto simp: I1_def Default_def container_Add ran_def)
next
  case False
  then have dd: "d (Add p name v fl) = d p" by (simp add: d_Add)
  from False assms(1) obtain k0 where k0: "container p k0 = Some (d p)"
    by (auto simp: I1_def Default_def ran_def)
  with False assms(2) have "k0 \<noteq> name" by (auto simp: Default_def)
  with k0 have "container (Add p name v fl) k0 = Some (d p)"
    by (simp add: container_Add)
  with dd show ?thesis
    by (auto simp: I1_def Default_def ran_def)
qed

lemma I1_SetDefault: "I1 p \<Longrightarrow> I1 (snd (SetDefault p name))"
  by (auto simp: I1_def SetDefault_def Default_def ran_def split: option.splits)

lemma I1_exec: "I1 p \<Longrightarrow> keeps_default p c \<Longrightarrow> I1 (exec p c)"
  by (cases c) (simp_all add: I1_Add I1_SetDefault)

lemma I1_run: "I1 p \<Longrightarrow> keeps_all p cs \<Longrightarrow> I1 (run p cs)"
  by (induction cs arbitrary: p) (simp_all add: I1_exec)

lemma I1_NewGiuProvider:
  assumes "list_all (\<lambda>(m, ks). visits m ks) items"
  shows "I1 (NewGiuProvider zero items)"
proof (cases items)
  case Nil
  then show ?thesis by (simp add: NewGiuProvider_Nil I1_def)
next
  case (Cons x rest)
  obtain m ks where x: "x = (m, ks)" by (cases x)
  from assms Cons x have v: "visits m ks" by simp
  have c: "container (NewGiuProvider zero ((m, ks) # rest)) = m"
    using v by (rule container_NewGiuProvider)
  show ?thesis
  proof (cases ks)
    case Nil
    with v have "dom m = {}" by (simp add: visits_def)
    then have "m = Map.empty" by simp
    with c show ?thesis by (simp add: I1_def Cons x)
  next
    case (Cons k ks')
    with v have "k \<in> dom m" by (auto simp: visits_def)
    then obtain w where w: "m k = Some w" by blast
    then have "d (NewGiuProvider zero ((m, k # ks') # rest)) = w"
      by (rule d_NewGiuProvider_first)
    with w c show ?thesis
      by (auto simp: I1_def Default_def ran_def \<open>items = x # rest\<close> x Cons)
  qed
qed

text \<open>
  Claim C1, as amended. A provider made by \<^verbatim>\<open>NewGiuProvider\<close> and then changed by any
  sequence of \<^verbatim>\<open>Add\<close> and \<^verbatim>\<open>SetDefault\<close> calls satisfies invariant I1 (when its
  container is not empty, \<^verbatim>\<open>Default()\<close> is one of the stored values), provided that no
  \<^verbatim>\<open>Add\<close> without a true flag overwrites a name whose stored value is the current
  default.
\<close>

theorem default_is_stored:
  assumes "list_all (\<lambda>(m, ks). visits m ks) items"
    and "keeps_all (NewGiuProvider zero items) calls"
  shows "I1 (run (NewGiuProvider zero items) calls)"
  using I1_run [OF I1_NewGiuProvider [OF assms(1)] assms(2)] .

text \<open>
  A provider seeded with two entries, then an \<^verbatim>\<open>Add\<close> of a new name, an overwriting
  \<^verbatim>\<open>Add\<close> with the flag, a \<^verbatim>\<open>SetDefault\<close>, and an overwrite of a name that does not
  hold the default.
\<close>

theorem default_is_stored_witness:
  "I1 (run (NewGiuProvider (0::nat) [([''a'' \<mapsto> 1, ''b'' \<mapsto> 2], [''b'', ''a''])])
        [CallAdd ''c'' 3 [], CallAdd ''b'' 4 [True], CallSetDefault ''a'', CallAdd ''b'' 5 []])"
proof -
  have v: "list_all (\<lambda>(m, ks). visits m ks) [([''a'' \<mapsto> (1::nat), ''b'' \<mapsto> 2], [''b'', ''a''])]"
    by (auto simp: visits_def)
  have c: "container (NewGiuProvider (0::nat) [([''a'' \<mapsto> 1, ''b'' \<mapsto> 2], [''b'', ''a''])])
             = [''a'' \<mapsto> 1, ''b'' \<mapsto> 2]"
    by (rule container_NewGiuProvider) (auto simp: visits_def)
  have k: "keeps_all (NewGiuProvider (0::nat) [([''a'' \<mapsto> 1, ''b'' \<mapsto> 2], [''b'', ''a''])])
        [CallAdd ''c'' 3 [], CallAdd ''b'' 4 [True], CallSetDefault ''a'', CallAdd ''b'' 5 []]"
    by (simp add: c makeDefault_def Default_def d_Add container_Add SetDefault_def
        NewGiuProvider_Cons)
  show ?thesis
    using default_is_stored [OF v k] .
qed

text \<open>
  Without the proviso the invariant fails: after \<^verbatim>\<open>Add("a", 1)\<close> and \<^verbatim>\<open>Add("a", 2)\<close> the
  container holds only 2, and \<^verbatim>\<open>Default()\<close> is still 1.
\<close>

theorem default_is_stored_counterexample:
  "container (run (NewGiuProvider (0::nat) []) [CallAdd ''a'' 1 [], CallAdd ''a'' 2 []]) \<noteq> Map.empty
   \<and> Default (run (NewGiuProvider (0::nat) []) [CallAdd ''a'' 1 [], CallAdd ''a'' 2 []]) = 1
   \<and> ran (container (run (NewGiuProvider (0::nat) []) [CallAdd ''a'' 1 [], CallAdd ''a'' 2 []])) = {2}"
  by (simp add: Default_def d_Add container_Add NewGiuProvider_Nil makeDefault_def)

section \<open>Which insertion becomes the default\<close>

text \<open>
  Claim C4, as amended. The default tracks the first insertion, not the last. After a
  sequence of \<^verbatim>\<open>Add\<close> calls with pairwise distinct names and no true flag into an empty
  provider, \<^verbatim>\<open>Default()\<close> is the value of the first call; such calls on a non-empty
  provider leave the default as it was. A provider seeded from a map by \<^verbatim>\<open>NewGiuProvider\<close>
  or \<^verbatim>\<open>NewProvider\<close> has as default the entry that the loop of the constructor visits
  first.
\<close>

theorem default_is_first_inserted:
  "(list_all plain_add (CallAdd name v fl # cs)
      \<and> distinct (map call_name (CallAdd name v fl # cs))
      \<longrightarrow> Default (run (NewGiuProvider zero []) (CallAdd name v fl # cs)) = v)
   \<and> (list_all plain_add cs' \<and> container p \<noteq> Map.empty
      \<longrightarrow> Default (run p cs') = Default p)
   \<and> (visits m (k # ks)
      \<longrightarrow> Some (Default (NewGiuProvider zero ((m, k # ks) # rest))) = m k
        \<and> Some (Default (NewProvider zero ((m, k # ks) # rest))) = m k)"
proof -
  have a: "Default (run (NewGiuProvider zero []) (CallAdd name v fl # cs)) = v"
    if "list_all plain_add (CallAdd name v fl # cs)"
  proof -
    from that have cs: "list_all plain_add cs" by simp
    have "d (run (Add (NewGiuProvider zero []) name v fl) cs)
            = d (Add (NewGiuProvider zero []) name v fl)"
      using run_plain_adds_d [OF cs container_Add_nonempty] .
    then show ?thesis
      by (simp add: Default_def d_Add NewGiuProvider_Nil)
  qed
  have b: "Some (Default (NewGiuProvider zero ((m, k # ks) # rest))) = m k"
    if "visits m (k # ks)"
  proof -
    from that have "k \<in> dom m" by (auto simp: visits_def)
    then obtain w where w: "m k = Some w" by blast
    then have "d (NewGiuProvider zero ((m, k # ks) # rest)) = w"
      by (rule d_NewGiuProvider_first)
    with w show ?thesis by (simp add: Default_def)
  qed
  have c: "Default (run p cs') = Default p"
    if "list_all plain_add cs'" and "container p \<noteq> Map.empty"
    using run_plain_adds_d [OF that] by (simp add: Default_def)
  show ?thesis
    using a b c by (simp add: NewProvider_def)
qed

text \<open>
  Two plain insertions, and a map of two entries ranged over from \<^verbatim>\<open>"b"\<close>: the default is
  the first value in both.
\<close>

theorem default_is_first_inserted_witness:
  "Default (run (NewGiuProvider (0::nat) []) [CallAdd ''a'' 1 [], CallAdd ''b'' 2 [False]]) = 1
   \<and> Some (Default (NewGiuProvider (0::nat) [([''a'' \<mapsto> 1, ''b'' \<mapsto> 2], [''b'', ''a''])])) = Some 2"
proof -
  have p: "list_all plain_add [CallAdd ''a'' (1::nat) [], CallAdd ''b'' 2 [False]]
           \<and> distinct (map call_name [CallAdd ''a'' (1::nat) [], CallAdd ''b'' 2 [False]])"
    by (simp add: makeDefault_def)
  have v: "visits [''a'' \<mapsto> (1::nat), ''b'' \<mapsto> 2] [''b'', ''a'']"
    by (auto simp: visits_def)
  show ?thesis
    using p v default_is_first_inserted [where name = "''a''" and v = "1::nat" and fl = "[]"
        and cs = "[CallAdd ''b'' 2 [False]]" and zero = 0
        and m = "[''a'' \<mapsto> 1, ''b'' \<mapsto> 2]" and k = "''b''" and ks = "[''a'']"
        and rest = "[]" and cs' = "[]" and p = "NewGiuProvider 0 []"]
    by simp
qed

text \<open>
  The most recent insertion is not the default: after \<^verbatim>\<open>Add("a", 1)\<close> and
  \<^verbatim>\<open>Add("b", 2)\<close>, and after seeding from a map visited in the order \<^verbatim>\<open>"a"\<close>, \<^verbatim>\<open>"b"\<close>,
  \<^verbatim>\<open>Default()\<close> is 1.
\<close>

theorem default_is_first_inserted_counterexample:
  "Default (run (NewGiuProvider (0::nat) []) [CallAdd ''a'' 1 [], CallAdd ''b'' 2 []]) = 1
   \<and> Default (run (NewGiuProvider (0::nat) []) [CallAdd ''a'' 1 [], CallAdd ''b'' 2 []]) \<noteq> 2
   \<and> visits [''a'' \<mapsto> (1::nat), ''b'' \<mapsto> 2] [''a'', ''b'']
   \<and> Default (NewGiuProvider (0::nat) [([''a'' \<mapsto> 1, ''b'' \<mapsto> 2], [''a'', ''b''])]) = 1
   \<and> Default (NewGiuProvider (0::nat) [([''a'' \<mapsto> 1, ''b'' \<mapsto> 2], [''a'', ''b''])]) \<noteq> 2"
  by (auto simp: Default_def d_Add container_Add NewGiuProvider_Nil NewGiuProvider_Cons
      makeDefault_def visits_def)

section \<open>Construction from parameters\<close>

lemma build_items_ok:
  "\<forall>kv\<in>set kvs. \<not> isl (f (snd kv)) \<Longrightarrow>
   build_items f kvs m = Inr (m ++ map_of (rev (map (\<lambda>kv. (fst kv, projr (f (snd kv)))) kvs)))"
proof (induction kvs arbitrary: m)
  case Nil
  then show ?case by simp
next
  case (Cons kv kvs)
  obtain k u where kv: "kv = (k, u)" by (cases kv)
  from Cons.prems kv obtain x where x: "f u = Inr x" by (cases "f u") auto
  from Cons.prems have rest: "\<forall>kv\<in>set kvs. \<not> isl (f (snd kv))" by simp
  have "m(k \<mapsto> x) ++ map_of (rev (map (\<lambda>kv. (fst kv, projr (f (snd kv)))) kvs))
        = m ++ ([k \<mapsto> x] ++ map_of (rev (map (\<lambda>kv. (fst kv, projr (f (snd kv)))) kvs)))"
    by (rule ext) (simp add: map_add_def split: option.splits)
  moreover have "build_items f (kv # kvs) m = build_items f kvs (m(k \<mapsto> x))"
    by (simp add: kv x)
  moreover have "build_items f kvs (m(k \<mapsto> x))
        = Inr (m(k \<mapsto> x) ++ map_of (rev (map (\<lambda>kv. (fst kv, projr (f (snd kv)))) kvs)))"
    by (rule Cons.IH [OF rest])
  moreover have "map_of (rev (map (\<lambda>kv. (fst kv, projr (f (snd kv)))) (kv # kvs)))
        = [k \<mapsto> x] ++ map_of (rev (map (\<lambda>kv. (fst kv, projr (f (snd kv)))) kvs))"
    by (simp add: kv x)
  ultimately show ?case by (simp only:)
qed

lemma build_items_error:
  "build_items f kvs m = Inl e \<Longrightarrow> \<exists>kv\<in>set kvs. f (snd kv) = Inl e"
  by (induction kvs arbitrary: m) (auto split: sum.splits)

lemma build_items_fails:
  "\<exists>kv\<in>set kvs. isl (f (snd kv)) \<Longrightarrow> isl (build_items f kvs m)"
proof (induction kvs arbitrary: m)
  case Nil
  then show ?case by simp
next
  case (Cons kv kvs)
  obtain k u where kv: "kv = (k, u)" by (cases kv)
  show ?case
  proof (cases "f u")
    case (Inl e)
    then show ?thesis by (simp add: kv)
  next
    case (Inr x)
    with Cons.prems kv have "\<exists>kv\<in>set kvs. isl (f (snd kv))" by auto
    then have "isl (build_items f kvs (m(k \<mapsto> x)))" by (rule Cons.IH)
    with Inr show ?thesis by (simp add: kv)
  qed
qed

lemma build_items_values:
  "map snd kvs = map snd kvs' \<Longrightarrow> build_items f kvs m = Inl e \<Longrightarrow>
   build_items f kvs' m' = Inl e"
proof (induction kvs arbitrary: kvs' m m')
  case Nil
  then show ?case by simp
next
  case (Cons kv kvs)
  from Cons.prems(1) obtain kv' rest' where kvs': "kvs' = kv' # rest'"
    and s: "snd kv = snd kv'" and r: "map snd kvs = map snd rest'"
    by (cases kvs') auto
  obtain k u where kv: "kv = (k, u)" by (cases kv)
  with s obtain k' where kv': "kv' = (k', u)" by (cases kv') auto
  show ?case
  proof (cases "f u")
    case (Inl e')
    with Cons.prems(2) show ?thesis by (simp add: kv kvs' kv')
  next
    case (Inr x)
    with Cons.prems(2) have "build_items f kvs (m(k \<mapsto> x)) = Inl e" by (simp add: kv)
    then have "build_items f rest' (m'(k' \<mapsto> x)) = Inl e"
      using Cons.IH [OF r] by blast
    with Inr show ?thesis by (simp add: kvs' kv')
  qed
qed

lemma set_range_entries:
  "kv \<in> set (range_entries m ks) \<Longrightarrow> fst kv \<in> set ks \<and> m (fst kv) = Some (snd kv)"
  by (induction ks) (auto split: option.splits)

lemma range_entries_mem:
  "k \<in> set ks \<Longrightarrow> m k = Some u \<Longrightarrow> (k, u) \<in> set (range_entries m ks)"
  by (induction ks) (auto split: option.splits)

lemma map_of_range_entries_map:
  "map_of (rev (map (\<lambda>kv. (fst kv, h (snd kv))) (range_entries m ks))) k
     = (if k \<in> set ks then map_option h (m k) else None)"
  by (induction ks) (auto simp: map_add_def split: option.splits if_splits)

lemma built_items:
  assumes "visits params pks" and "\<forall>k u. params k = Some u \<longrightarrow> \<not> isl (f u)"
  shows "build_items f (range_entries params pks) Map.empty
           = Inr (\<lambda>k. map_option (\<lambda>u. projr (f u)) (params k))"
proof -
  have ok: "\<forall>kv\<in>set (range_entries params pks). \<not> isl (f (snd kv))"
    using assms(2) set_range_entries by blast
  have "map_of (rev (map (\<lambda>kv. (fst kv, projr (f (snd kv)))) (range_entries params pks)))
          = (\<lambda>k. map_option (\<lambda>u. projr (f u)) (params k))"
  proof (rule ext)
    fix k
    show "map_of (rev (map (\<lambda>kv. (fst kv, projr (f (snd kv)))) (range_entries params pks))) k
            = map_option (\<lambda>u. projr (f u)) (params k)"
      using assms(1) map_of_range_entries_map [of "\<lambda>u. projr (f u)" params pks k]
      by (auto simp: visits_def)
  qed
  with build_items_ok [OF ok, of Map.empty] show ?thesis by simp
qed

lemma FromParamsError_ok:
  assumes "visits params pks" and "visits params iks"
    and "\<forall>k u. params k = Some u \<longrightarrow> \<not> isl (f u)"
  shows "\<exists>g. (case build_items f (range_entries params pks) Map.empty of
                Inl err \<Rightarrow> Inl err
              | Inr itemMap \<Rightarrow> Inr (NewGiuProvider zero [(itemMap, iks)])) = Inr g
            \<and> dom (container g) = dom params
            \<and> (\<forall>k u. params k = Some u \<longrightarrow> f u = Inr (the (container g k)))"
proof -
  let ?im = "\<lambda>k. map_option (\<lambda>u. projr (f u)) (params k)"
  have b: "build_items f (range_entries params pks) Map.empty = Inr ?im"
    using assms(1,3) by (rule built_items)
  have "dom ?im = dom params" by (auto simp: dom_def)
  with assms(2) have "visits ?im iks" by (simp add: visits_def)
  then have c: "container (NewGiuProvider zero [(?im, iks)]) = ?im"
    by (rule container_NewGiuProvider)
  have "f u = Inr (the (?im k))" if "params k = Some u" for k u
  proof -
    from that assms(3) have "\<not> isl (f u)" by blast
    then show ?thesis by (cases "f u") (simp_all add: that)
  qed
  with b c \<open>dom ?im = dom params\<close> show ?thesis by simp
qed

lemma FromParamsError_fails:
  assumes "visits params pks" and "params k = Some u" and "f u = Inl e"
  shows "\<exists>e'. (case build_items f (range_entries params pks) Map.empty of
                Inl err \<Rightarrow> Inl err
              | Inr itemMap \<Rightarrow> Inr (NewGiuProvider zero [(itemMap, iks)])) = Inl e'"
proof -
  from assms(1,2) have "k \<in> set pks" by (auto simp: visits_def)
  then have "(k, u) \<in> set (range_entries params pks)"
    using assms(2) by (rule range_entries_mem)
  with assms(3) have "\<exists>kv\<in>set (range_entries params pks). isl (f (snd kv))" by force
  then have "isl (build_items f (range_entries params pks) Map.empty)"
    by (rule build_items_fails)
  then show ?thesis by (auto simp: isl_def)
qed

lemma gorm_connections_error:
  "gorm_connections NewGorm cfg kvs m = Inl (Returned e) \<Longrightarrow>
   \<exists>kv\<in>set kvs. \<exists>u. snd kv = Some u \<and> NewGorm u cfg = Inl e"
  by (induction kvs arbitrary: m) (auto split: sum.splits option.splits)

lemma FromParamsError_error:
  assumes "(case build_items f (range_entries params pks) Map.empty of
              Inl err \<Rightarrow> Inl err
            | Inr itemMap \<Rightarrow> Inr (NewGiuProvider zero [(itemMap, iks)])) = Inl e"
  shows "\<exists>k u. k \<in> set pks \<and> params k = Some u \<and> f u = Inl e"
proof -
  from assms have "build_items f (range_entries params pks) Map.empty = Inl e"
    by (simp split: sum.splits)
  then have "\<exists>kv\<in>set (range_entries params pks). f (snd kv) = Inl e"
    by (rule build_items_error)
  then obtain kv where "kv \<in> set (range_entries params pks)" and "f (snd kv) = Inl e"
    by blast
  with set_range_entries [of kv params pks] show ?thesis by blast
qed

lemma FromParamsError_values:
  assumes "range_values params pks = range_values params' pks'"
    and "(case build_items f (range_entries params pks) Map.empty of
              Inl err \<Rightarrow> Inl err
            | Inr itemMap \<Rightarrow> Inr (NewGiuProvider zero [(itemMap, iks)])) = Inl e"
  shows "(case build_items f (range_entries params' pks') Map.empty of
              Inl err \<Rightarrow> Inl err
            | Inr itemMap \<Rightarrow> Inr (NewGiuProvider zero [(itemMap, iks')])) = Inl e"
proof -
  from assms(2) have "build_items f (range_entries params pks) Map.empty = Inl e"
    by (simp split: sum.splits)
  with assms(1) have "build_items f (range_entries params' pks') Map.empty = Inl e"
    unfolding range_values_def by (rule build_items_values)
  then show ?thesis by simp
qed

lemma all_built:
  "\<forall>k u. params k = Some u \<longrightarrow> (\<exists>x. f u = Inr x) \<Longrightarrow>
   \<forall>k u. params k = Some u \<longrightarrow> \<not> isl (f u)"
  by (metis sum.disc(2))

text \<open>
  Claim C5. Let \<open>pks\<close> be an order in which the loop may range over \<^verbatim>\<open>params\<close> and \<open>iks\<close>
  one in which \<^verbatim>\<open>NewGiuProvider\<close> may range over the item map (which has the keys of
  \<^verbatim>\<open>params\<close>). If the factory returns an error for the parameter of some key, then
  \<^verbatim>\<open>NewGiuProviderFromParamsError\<close> returns an error and no provider. If it returns an
  item for the parameter of every key, the result is a provider, with no error, whose
  container has exactly the keys of \<^verbatim>\<open>params\<close>, each bound to the item the factory built for
  it. The same holds for \<^verbatim>\<open>NewGiuProviderWithLoggerFromParamsError\<close>.
\<close>

theorem batch_construction_all_or_nothing:
  assumes "visits params pks" and "visits params iks"
  shows "((\<exists>k u e. params k = Some u \<and> newFunc u = Inl e)
           \<longrightarrow> (\<exists>e. NewGiuProviderFromParamsError zero newFunc params pks iks = Inl e))
     \<and> ((\<forall>k u. params k = Some u \<longrightarrow> (\<exists>x. newFunc u = Inr x))
           \<longrightarrow> (\<exists>g. NewGiuProviderFromParamsError zero newFunc params pks iks = Inr g
                  \<and> dom (container g) = dom params
                  \<and> (\<forall>k u. params k = Some u \<longrightarrow> newFunc u = Inr (the (container g k)))))
     \<and> ((\<exists>k u e. params k = Some u \<and> newFuncL u logger = Inl e)
           \<longrightarrow> (\<exists>e. NewGiuProviderWithLoggerFromParamsError zero newFuncL params logger pks iks
                  = Inl e))
     \<and> ((\<forall>k u. params k = Some u \<longrightarrow> (\<exists>x. newFuncL u logger = Inr x))
           \<longrightarrow> (\<exists>g. NewGiuProviderWithLoggerFromParamsError zero newFuncL params logger pks iks
                    = Inr g
                  \<and> dom (container g) = dom params
                  \<and> (\<forall>k u. params k = Some u
                        \<longrightarrow> newFuncL u logger = Inr (the (container g k)))))"
proof (intro conjI impI)
  assume "\<exists>k u e. params k = Some u \<and> newFunc u = Inl e"
  then obtain k u e where "params k = Some u" and "newFunc u = Inl e" by blast
  then show "\<exists>e. NewGiuProviderFromParamsError zero newFunc params pks iks = Inl e"
    unfolding NewGiuProviderFromParamsError_def
    by (rule FromParamsError_fails [OF assms(1)])
next
  assume "\<forall>k u. params k = Some u \<longrightarrow> (\<exists>x. newFunc u = Inr x)"
  then have "\<forall>k u. params k = Some u \<longrightarrow> \<not> isl (newFunc u)" by (rule all_built)
  then show "\<exists>g. NewGiuProviderFromParamsError zero newFunc params pks iks = Inr g
      \<and> dom (container g) = dom params
      \<and> (\<forall>k u. params k = Some u \<longrightarrow> newFunc u = Inr (the (container g k)))"
    unfolding NewGiuProviderFromParamsError_def
    by (rule FromParamsError_ok [OF assms])
next
  assume "\<exists>k u e. params k = Some u \<and> newFuncL u logger = Inl e"
  then obtain k u e where "params k = Some u" and "newFuncL u logger = Inl e" by blast
  then show "\<exists>e. NewGiuProviderWithLoggerFromParamsError zero newFuncL params logger pks iks
      = Inl e"
    unfolding NewGiuProviderWithLoggerFromParamsError_def
    by (rule FromParamsError_fails [OF assms(1)])
next
  assume "\<forall>k u. params k = Some u \<longrightarrow> (\<exists>x. newFuncL u logger = Inr x)"
  then have "\<forall>k u. params k = Some u \<longrightarrow> \<not> isl (newFuncL u logger)" by (rule all_built)
  then show "\<exists>g. NewGiuProviderWithLoggerFromParamsError zero newFuncL params logger pks iks
        = Inr g
      \<and> dom (container g) = dom params
      \<and> (\<forall>k u. params k = Some u \<longrightarrow> newFuncL u logger = Inr (the (container g k)))"
    unfolding NewGiuProviderWithLoggerFromParamsError_def
    by (rule FromParamsError_ok [OF assms])
qed

text \<open>
  Three keys of which \<^verbatim>\<open>"b"\<close> fails, whatever the order: an error. A factory that never
  fails: a provider with the three keys.
\<close>

theorem batch_construction_all_or_nothing_witness:
  "(\<exists>e. NewGiuProviderFromParamsError (0::nat) (\<lambda>u. if u = 0 then Inl ''zero'' else Inr u)
        [''a'' \<mapsto> (1::nat), ''b'' \<mapsto> 0, ''c'' \<mapsto> 2] [''c'', ''a'', ''b''] [''a'', ''b'', ''c'']
        = Inl (e :: string))
   \<and> (\<exists>g. NewGiuProviderWithLoggerFromParamsError (0::nat)
        (\<lambda>u l. Inr (u + l) :: string + nat)
        [''a'' \<mapsto> (1::nat), ''b'' \<mapsto> 0, ''c'' \<mapsto> 2] (5::nat) [''c'', ''a'', ''b''] [''a'', ''b'', ''c'']
        = Inr g
      \<and> dom (container g) = {''a'', ''b'', ''c''})"
proof -
  let ?params = "[''a'' \<mapsto> (1::nat), ''b'' \<mapsto> 0, ''c'' \<mapsto> 2]"
  have p: "visits ?params [''c'', ''a'', ''b'']"
    by (auto simp: visits_def)
  have i: "visits ?params [''a'', ''b'', ''c'']"
    by (auto simp: visits_def)
  have f: "\<exists>k u e. ?params k = Some u \<and> (if u = 0 then Inl ''zero'' else Inr u) = (Inl e :: string + nat)"
    by (rule exI [of _ "''b''"]) simp
  have s: "\<forall>k u. ?params k = Some u \<longrightarrow> (\<exists>x. (Inr (u + (5::nat)) :: string + nat) = Inr x)"
    by simp
  have dm: "dom ?params = {''a'', ''b'', ''c''}"
    by auto
  note t = batch_construction_all_or_nothing [OF p i,
        where zero = "0::nat" and newFunc = "\<lambda>u. if u = 0 then Inl ''zero'' else Inr u"
          and newFuncL = "\<lambda>u l. Inr (u + l) :: string + nat" and logger = "5::nat"]
  from t f have a: "\<exists>e. NewGiuProviderFromParamsError (0::nat)
        (\<lambda>u. if u = 0 then Inl ''zero'' else Inr u) ?params [''c'', ''a'', ''b'']
        [''a'', ''b'', ''c''] = Inl (e :: string)"
    by blast
  from t s obtain g where "NewGiuProviderWithLoggerFromParamsError (0::nat)
        (\<lambda>u l. Inr (u + l) :: string + nat) ?params (5::nat) [''c'', ''a'', ''b'']
        [''a'', ''b'', ''c''] = Inr g" and "dom (container g) = dom ?params"
    by blast
  then have "NewGiuProviderWithLoggerFromParamsError (0::nat)
        (\<lambda>u l. Inr (u + l) :: string + nat) ?params (5::nat) [''c'', ''a'', ''b'']
        [''a'', ''b'', ''c''] = Inr g \<and> dom (container g) = {''a'', ''b'', ''c''}"
    by (simp only: dm)
  with a show ?thesis by blast
qed

section \<open>What a construction error carries\<close>

text \<open>
  Claim C6, as amended. The error of a failed batch construction is the error that the
  factory returned for the parameter of one of the keys, passed on as it is
  (\<^verbatim>\<open>return nil, err\<close>), in \<^verbatim>\<open>NewGiuProviderFromParamsError\<close>, in the variant with a
  logger and in \<^verbatim>\<open>NewGormProviderFromParams\<close>. Nothing of the key is added to it: the
  same sequence of parameter values under any other names fails with the same error.
\<close>

theorem construction_error_is_factory_error:
  "(NewGiuProviderFromParamsError zero newFunc params pks iks = Inl e
      \<longrightarrow> (\<exists>k u. k \<in> set pks \<and> params k = Some u \<and> newFunc u = Inl e))
   \<and> (NewGiuProviderWithLoggerFromParamsError zero newFuncL params logger pks iks = Inl e
      \<longrightarrow> (\<exists>k u. k \<in> set pks \<and> params k = Some u \<and> newFuncL u logger = Inl e))
   \<and> (NewGormProviderFromParams zero NewGorm configParams connectionParams cks iks
        = Inl (Returned e)
      \<longrightarrow> (\<exists>k u. k \<in> set cks \<and> connectionParams k = Some (Some u)
                 \<and> NewGorm u configParams = Inl e))
   \<and> (range_values params pks = range_values params' pks'
        \<and> NewGiuProviderFromParamsError zero newFunc params pks iks = Inl e
      \<longrightarrow> NewGiuProviderFromParamsError zero newFunc params' pks' iks' = Inl e)"
proof -
  have g: "\<exists>k u. k \<in> set cks \<and> connectionParams k = Some (Some u) \<and> NewGorm u configParams = Inl e"
    if "NewGormProviderFromParams zero NewGorm configParams connectionParams cks iks
          = Inl (Returned e)"
  proof -
    from that have "gorm_connections NewGorm configParams (range_entries connectionParams cks)
        Map.empty = Inl (Returned e)"
      by (simp add: NewGormProviderFromParams_def split: sum.splits)
    then have "\<exists>kv\<in>set (range_entries connectionParams cks).
        \<exists>u. snd kv = Some u \<and> NewGorm u configParams = Inl e"
      by (rule gorm_connections_error)
    then obtain kv u where "kv \<in> set (range_entries connectionParams cks)"
      and "snd kv = Some u" and "NewGorm u configParams = Inl e"
      by blast
    with set_range_entries [of kv connectionParams cks] show ?thesis by auto
  qed
  have p: "\<exists>k u. k \<in> set pks \<and> params k = Some u \<and> newFunc u = Inl e"
    if "NewGiuProviderFromParamsError zero newFunc params pks iks = Inl e"
    using that unfolding NewGiuProviderFromParamsError_def by (rule FromParamsError_error)
  have l: "\<exists>k u. k \<in> set pks \<and> params k = Some u \<and> newFuncL u logger = Inl e"
    if "NewGiuProviderWithLoggerFromParamsError zero newFuncL params logger pks iks = Inl e"
    using that unfolding NewGiuProviderWithLoggerFromParamsError_def
    by (rule FromParamsError_error)
  have v: "NewGiuProviderFromParamsError zero newFunc params' pks' iks' = Inl e"
    if "range_values params pks = range_values params' pks'"
      and "NewGiuProviderFromParamsError zero newFunc params pks iks = Inl e"
    using that unfolding NewGiuProviderFromParamsError_def by (rule FromParamsError_values)
  show ?thesis
  proof (intro conjI impI)
    assume "NewGiuProviderFromParamsError zero newFunc params pks iks = Inl e"
    then show "\<exists>k u. k \<in> set pks \<and> params k = Some u \<and> newFunc u = Inl e"
      by (rule p)
  next
    assume "NewGiuProviderWithLoggerFromParamsError zero newFuncL params logger pks iks = Inl e"
    then show "\<exists>k u. k \<in> set pks \<and> params k = Some u \<and> newFuncL u logger = Inl e"
      by (rule l)
  next
    assume "NewGormProviderFromParams zero NewGorm configParams connectionParams cks iks
      = Inl (Returned e)"
    then show "\<exists>k u. k \<in> set cks \<and> connectionParams k = Some (Some u)
      \<and> NewGorm u configParams = Inl e"
      by (rule g)
  next
    assume "range_values params pks = range_values params' pks'
      \<and> NewGiuProviderFromParamsError zero newFunc params pks iks = Inl e"
    then show "NewGiuProviderFromParamsError zero newFunc params' pks' iks' = Inl e"
      using v by blast
  qed
qed

text \<open>
  A map whose key \<^verbatim>\<open>"b"\<close> fails, and the same values under the names \<^verbatim>\<open>"x"\<close> and
  \<^verbatim>\<open>"y"\<close>.
\<close>

theorem construction_error_is_factory_error_witness:
  "(\<exists>k u. k \<in> set [''a'', ''b''] \<and> [''a'' \<mapsto> (1::nat), ''b'' \<mapsto> 0] k = Some u
        \<and> (if u = 0 then Inl ''zero'' else Inr u) = (Inl ''zero'' :: string + nat))
   \<and> NewGiuProviderFromParamsError (0::nat) (\<lambda>u. if u = 0 then Inl ''zero'' else Inr u)
        [''x'' \<mapsto> 1, ''y'' \<mapsto> 0] [''x'', ''y''] [] = Inl ''zero''"
proof -
  have a: "NewGiuProviderFromParamsError (0::nat) (\<lambda>u. if u = 0 then Inl ''zero'' else Inr u)
        [''a'' \<mapsto> (1::nat), ''b'' \<mapsto> 0] [''a'', ''b''] [''b'', ''a''] = Inl ''zero''"
    by (simp add: NewGiuProviderFromParamsError_def)
  have b: "range_values [''a'' \<mapsto> (1::nat), ''b'' \<mapsto> 0] [''a'', ''b'']
             = range_values [''x'' \<mapsto> 1, ''y'' \<mapsto> 0] [''x'', ''y'']"
    by (simp add: range_values_def)
  note t = construction_error_is_factory_error [where zero = "0::nat"
        and newFunc = "\<lambda>u. if u = 0 then Inl ''zero'' else Inr u"
        and params = "[''a'' \<mapsto> (1::nat), ''b'' \<mapsto> 0]" and pks = "[''a'', ''b'']"
        and iks = "[''b'', ''a'']" and e = "''zero''"
        and params' = "[''x'' \<mapsto> 1, ''y'' \<mapsto> 0]" and pks' = "[''x'', ''y'']"
        and iks' = "[]"]
  from t [THEN conjunct1] a
  have c1: "\<exists>k u. k \<in> set [''a'', ''b''] \<and> [''a'' \<mapsto> (1::nat), ''b'' \<mapsto> 0] k = Some u
        \<and> (if u = 0 then Inl ''zero'' else Inr u) = (Inl ''zero'' :: string + nat)"
    by (rule mp)
  from a b have "range_values [''a'' \<mapsto> (1::nat), ''b'' \<mapsto> 0] [''a'', ''b'']
             = range_values [''x'' \<mapsto> 1, ''y'' \<mapsto> 0] [''x'', ''y'']
      \<and> NewGiuProviderFromParamsError (0::nat) (\<lambda>u. if u = 0 then Inl ''zero'' else Inr u)
        [''a'' \<mapsto> (1::nat), ''b'' \<mapsto> 0] [''a'', ''b''] [''b'', ''a''] = Inl ''zero''"
    by (intro conjI)
  with t [THEN conjunct2, THEN conjunct2, THEN conjunct2]
  have c2: "NewGiuProviderFromParamsError (0::nat) (\<lambda>u. if u = 0 then Inl ''zero'' else Inr u)
        [''x'' \<mapsto> 1, ''y'' \<mapsto> 0] [''x'', ''y''] [] = Inl ''zero''"
    by (rule mp)
  from c1 c2 show ?thesis by (rule conjI)
qed

text \<open>
  The error does not identify the key: a factory that fails with its argument as the
  error gives the same error for the failing key \<^verbatim>\<open>"a"\<close> and for the failing key
  \<^verbatim>\<open>"b"\<close>.
\<close>

theorem construction_error_is_factory_error_counterexample:
  "NewGiuProviderFromParamsError (0::nat) (Inl :: string \<Rightarrow> string + nat)
      [''a'' \<mapsto> ''boom''] [''a''] [''a''] = Inl ''boom''
   \<and> NewGiuProviderFromParamsError (0::nat) (Inl :: string \<Rightarrow> string + nat)
      [''b'' \<mapsto> ''boom''] [''b''] [''b''] = Inl ''boom''"
  by (simp add: NewGiuProviderFromParamsError_def)

section \<open>Fail-fast shutdown\<close>

lemma close_each_all_ok:
  "\<forall>v\<in>set vs. c v = None \<Longrightarrow> close_each c vs = (vs, None)"
  by (induction vs) simp_all

lemma close_each_first_error:
  "\<forall>x\<in>set pre. c x = None \<Longrightarrow> c v = Some e \<Longrightarrow>
   close_each c (pre @ v # post) = (pre @ [v], Some e)"
  by (induction pre) simp_all

lemma gorm_close_each_handles:
  "gorm_close_each DB Close vs = close_each Close (sql_handles DB vs)"
  by (induction vs) (simp_all split: sum.splits option.splits)

lemma range_values_visits:
  assumes "visits m ks"
  shows "range_values m ks = map (\<lambda>k. the (m k)) ks"
proof -
  from assms have "set ks \<subseteq> dom m" by (simp add: visits_def)
  then show ?thesis
    by (simp add: range_values_def range_entries_visits comp_def)
qed

lemma held_values:
  assumes "visits m ks"
  shows "set (range_values m ks) = ran m \<and> length (range_values m ks) = card (dom m)"
proof -
  from assms have s: "set ks = dom m" and dist: "distinct ks" by (simp_all add: visits_def)
  have "set (range_values m ks) = (\<lambda>k. the (m k)) ` dom m"
    by (simp add: range_values_visits [OF assms] s)
  also have "\<dots> = ran m"
    by (auto simp: ran_def dom_def image_iff) force
  finally have a: "set (range_values m ks) = ran m" .
  have "length (range_values m ks) = length ks"
    by (simp add: range_values_visits [OF assms])
  also have "\<dots> = card (dom m)"
    using dist s distinct_card by fastforce
  finally show ?thesis using a by simp
qed

text \<open>
  Claim C7, as amended. Let the keys be visited in any possible order; the loop then sees
  every held instance, one per entry of the container. \<^verbatim>\<open>zapProvider.Shutdown\<close> and
  \<^verbatim>\<open>redisProvider.Shutdown\<close>: if the operation succeeds on every instance, the result is
  nil and the operation was called once on each; if it fails on some instance after
  succeeding on those before it, the result is that error and the operation was called
  on the instances up to the failing one and on none after it. \<^verbatim>\<open>gormProvider.Shutdown\<close>
  behaves so on the \<^verbatim>\<open>*sql.DB\<close> handles of the instances whose \<^verbatim>\<open>DB()\<close> call succeeds;
  an instance whose \<^verbatim>\<open>DB()\<close> call fails is passed over, with no close and no error.
\<close>

theorem typed_shutdown_fail_fast:
  fixes zp :: "'a zapProvider" and rp :: "'b redisProvider" and gp :: "'c gormProvider"
  assumes "visits (container (zap_giu zp)) zks"
    and "visits (container (redis_giu rp)) rks"
    and "visits (container (gorm_giu gp)) gks"
  shows "set (range_values (container (zap_giu zp)) zks) = ran (container (zap_giu zp))
     \<and> length (range_values (container (zap_giu zp)) zks) = card (dom (container (zap_giu zp)))
     \<and> ((\<forall>v\<in>set (range_values (container (zap_giu zp)) zks). Sync v = None)
          \<longrightarrow> zapProvider_Shutdown Sync zks zp
                = (range_values (container (zap_giu zp)) zks, None))
     \<and> (range_values (container (zap_giu zp)) zks = pre @ v # post
          \<and> (\<forall>x\<in>set pre. Sync x = None) \<and> Sync v = Some e
          \<longrightarrow> zapProvider_Shutdown Sync zks zp = (pre @ [v], Some e))
     \<and> set (range_values (container (redis_giu rp)) rks) = ran (container (redis_giu rp))
     \<and> length (range_values (container (redis_giu rp)) rks)
          = card (dom (container (redis_giu rp)))
     \<and> ((\<forall>v\<in>set (range_values (container (redis_giu rp)) rks). Close v = None)
          \<longrightarrow> redisProvider_Shutdown Close rks rp
                = (range_values (container (redis_giu rp)) rks, None))
     \<and> (range_values (container (redis_giu rp)) rks = pre' @ v' # post'
          \<and> (\<forall>x\<in>set pre'. Close x = None) \<and> Close v' = Some e'
          \<longrightarrow> redisProvider_Shutdown Close rks rp = (pre' @ [v'], Some e'))
     \<and> set (range_values (container (gorm_giu gp)) gks) = ran (container (gorm_giu gp))
     \<and> length (range_values (container (gorm_giu gp)) gks)
          = card (dom (container (gorm_giu gp)))
     \<and> ((\<forall>h\<in>set (sql_handles DB (range_values (container (gorm_giu gp)) gks)).
            CloseDB h = None)
          \<longrightarrow> gormProvider_Shutdown DB CloseDB gks gp
                = (sql_handles DB (range_values (container (gorm_giu gp)) gks), None))
     \<and> (sql_handles DB (range_values (container (gorm_giu gp)) gks) = hpre @ h # hpost
          \<and> (\<forall>x\<in>set hpre. CloseDB x = None) \<and> CloseDB h = Some e''
          \<longrightarrow> gormProvider_Shutdown DB CloseDB gks gp = (hpre @ [h], Some e''))"
proof -
  note z = held_values [OF assms(1)]
  note r = held_values [OF assms(2)]
  note g = held_values [OF assms(3)]
  show ?thesis
    unfolding zapProvider_Shutdown_def redisProvider_Shutdown_def gormProvider_Shutdown_def
      gorm_close_each_handles
    using z r g
    by (simp add: close_each_all_ok close_each_first_error)
qed

text \<open>
  Three loggers of which the second fails to sync; two redis clients that close; four
  gorm instances of which the first has no handle and the third fails to close.
\<close>

theorem typed_shutdown_fail_fast_witness:
  "zapProvider_Shutdown (\<lambda>v. if v = 2 then Some ''sync failed'' else None) [''a'', ''b'', ''c'']
      (zapProvider \<lparr>d = (1::nat), container = [''a'' \<mapsto> 1, ''b'' \<mapsto> 2, ''c'' \<mapsto> 3]\<rparr>)
     = ([1, 2], Some ''sync failed'')
   \<and> redisProvider_Shutdown (\<lambda>v. None :: string option) [''b'', ''a'']
      (redisProvider \<lparr>d = (1::nat), container = [''a'' \<mapsto> 1, ''b'' \<mapsto> 2]\<rparr>)
     = ([2, 1], None)
   \<and> gormProvider_Shutdown (\<lambda>v. if v = 1 then Inl ''no handle'' else Inr (v + 10))
      (\<lambda>h. if h = 13 then Some ''close failed'' else None) [''a'', ''b'', ''c'', ''e'']
      (gormProvider \<lparr>d = (1::nat), container = [''a'' \<mapsto> 1, ''b'' \<mapsto> 2, ''c'' \<mapsto> 3, ''e'' \<mapsto> 4]\<rparr>)
     = ([12, 13], Some ''close failed'')"
proof -
  let ?zp = "zapProvider \<lparr>d = (1::nat), container = [''a'' \<mapsto> 1, ''b'' \<mapsto> 2, ''c'' \<mapsto> 3]\<rparr>"
  let ?rp = "redisProvider \<lparr>d = (1::nat), container = [''a'' \<mapsto> 1, ''b'' \<mapsto> 2]\<rparr>"
  let ?gp = "gormProvider \<lparr>d = (1::nat),
    container = [''a'' \<mapsto> 1, ''b'' \<mapsto> 2, ''c'' \<mapsto> 3, ''e'' \<mapsto> 4]\<rparr>"
  have vz: "visits (container (zap_giu ?zp)) [''a'', ''b'', ''c'']"
    by (auto simp: visits_def)
  have vr: "visits (container (redis_giu ?rp)) [''b'', ''a'']"
    by (auto simp: visits_def)
  have vg: "visits (container (gorm_giu ?gp)) [''a'', ''b'', ''c'', ''e'']"
    by (auto simp: visits_def)
  have z: "range_values (container (zap_giu ?zp)) [''a'', ''b'', ''c''] = [1] @ 2 # [3]"
    by (simp add: range_values_def)
  have r: "range_values (container (redis_giu ?rp)) [''b'', ''a''] = [2, 1]"
    by (simp add: range_values_def)
  have g: "sql_handles (\<lambda>v. if v = 1 then Inl ''no handle'' else Inr (v + 10))
             (range_values (container (gorm_giu ?gp)) [''a'', ''b'', ''c'', ''e''])
           = [12] @ 13 # [14]"
    by (simp add: range_values_def)
  show ?thesis
    using z r g typed_shutdown_fail_fast [OF vz vr vg,
        where Sync = "\<lambda>v. if v = 2 then Some ''sync failed'' else None"
          and pre = "[1]" and v = 2 and post = "[3]" and e = "''sync failed''"
          and Close = "\<lambda>v. None :: string option"
          and DB = "\<lambda>v. if v = 1 then Inl ''no handle'' else Inr (v + 10)"
          and CloseDB = "\<lambda>h. if h = 13 then Some ''close failed'' else None"
          and hpre = "[12]" and h = 13 and hpost = "[14]" and e'' = "''close failed''"]
    by simp
qed

text \<open>
  For gorm the claim fails as stated: a provider holding one instance whose \<^verbatim>\<open>DB()\<close> call
  returns an error shuts down with nil, and \<^verbatim>\<open>Close\<close> was called on nothing.
\<close>

theorem typed_shutdown_fail_fast_counterexample:
  "container (gorm_giu (NewGormProvider (0::nat) [([''a'' \<mapsto> 1], [''a''])])) = [''a'' \<mapsto> 1]
   \<and> gormProvider_Shutdown (Inl :: nat \<Rightarrow> nat + nat) (Map.empty :: nat \<Rightarrow> nat option) [''a'']
        (NewGormProvider (0::nat) [([''a'' \<mapsto> 1], [''a''])]) = ([], None)"
  by (simp add: gormProvider_Shutdown_def NewGormProvider_def newGormProvider_def
      NewGiuProvider_Cons container_Add range_values_def)

end
